theory Spec2Isabelle
  imports Complex_Main "HOL-Library.Sublist" "HOL-Library.Log_Nat"
begin

section \<open>The golang coverage linter (go-build/check\_coverage.py)\<close>

text \<open>
  The script walks the directory tree below the working directory, reports every
  directory that holds \<open>.go\<close> files but no \<open>_test.go\<close> file, and compares the line
  coverage of \<open>coverage.xml\<close> with the threshold of the configuration file. The model
  follows the script function by function. What the script reads from its host
  (the file system, the regular expression engine) is a value of type \<open>host\<close>; a Python
  exception is a value of \<open>py_error\<close>; every \<open>logging\<close> call appends a record to a log.
\<close>

subsection \<open>Constants of the module\<close>

definition GO_FILE_SUFFIX :: string where
  "GO_FILE_SUFFIX = ''.go''"

definition GO_TEST_FILE_SUFFIX :: string where
  "GO_TEST_FILE_SUFFIX = ''_test.go''"

definition COVERAGE_REPORT_FILE :: string where
  "COVERAGE_REPORT_FILE = ''coverage.xml''"

definition CONFIG_FILE_NAME :: string where
  "CONFIG_FILE_NAME = ''.golang_coverage_lintrc.json''"

text \<open>\<open>SkippedPathDetecter._ALWAYS_SKIPPED\<close>\<close>

definition ALWAYS_SKIPPED :: "string list" where
  "ALWAYS_SKIPPED = [''.git'', ''.gen'', ''.tmp'', ''vendor'', ''go-build'']"

subsection \<open>Exceptions, strings, regular expressions\<close>

text \<open>
  The exceptions the script can raise and does not catch: \<open>os.listdir\<close> raises
  \<open>OSError\<close>, \<open>re.compile\<close> raises \<open>re.error\<close>, \<open>ElementTree.parse\<close> raises
  \<open>ParseError\<close>, the float division raises \<open>ZeroDivisionError\<close>, and \<open>float\<close> of an
  integer raises \<open>OverflowError\<close>.
\<close>

datatype py_error = OSError | RegexError | ParseError | ZeroDivisionError | OverflowError

text \<open>\<open>s.endswith(suf)\<close>\<close>

definition endswith :: "string \<Rightarrow> string \<Rightarrow> bool" where
  "endswith s suf = suffix suf s"

text \<open>
  A compiled pattern is known by its \<open>match\<close> method alone: \<open>prog s\<close> stands for
  \<open>prog.match(s) is not None\<close>, the match of the pattern at the start of \<open>s\<close>.
\<close>

type_synonym regex = "string \<Rightarrow> bool"

subsection \<open>Floating point\<close>

text \<open>
  A Python float is a binary64 number: a finite value, given as the rational it stands
  for (the two zeros are one), an infinity, or NaN.
\<close>

datatype pyfloat = Finite rat | PInf | NInf | NaN

definition round_half_even :: "rat \<Rightarrow> int" where
  "round_half_even x =
     (let n = \<lfloor>x\<rfloor>; d = x - of_int n
      in if d < 1 / 2 then n else if 1 / 2 < d then n + 1 else if even n then n else n + 1)"

definition pow2 :: "int \<Rightarrow> rat" where
  "pow2 e = (if 0 \<le> e then 2 ^ nat e else 1 / 2 ^ nat (- e))"

text \<open>The exponent \<open>e\<close> with \<open>2 ^ e \<le> \<bar>x\<bar> < 2 ^ (e + 1)\<close>, for \<open>x \<noteq> 0\<close>.\<close>

definition binade :: "rat \<Rightarrow> int" where
  "binade x =
     (let k = bitlen (fst (quotient_of \<bar>x\<bar>)) - bitlen (snd (quotient_of \<bar>x\<bar>))
      in if pow2 k \<le> \<bar>x\<bar> then k else k - 1)"

text \<open>
  Rounding to the nearest binary64 value, ties to the even significand: 53 bits of
  significand, and no bit below \<open>2 ^ - 1074\<close> (the subnormal numbers). The result is not
  yet checked against the largest float.
\<close>

definition float_of :: "rat \<Rightarrow> rat" where
  "float_of x =
     (if x = 0 then 0
      else let e = max (binade x - 52) (- 1074)
           in of_int (round_half_even (x / pow2 e)) * pow2 e)"

text \<open>
  A rounded value is beyond the largest float when its magnitude is \<open>2 ^ 1024\<close> or more,
  that is when its exponent is 1024 or more.
\<close>

definition overflows :: "rat \<Rightarrow> bool" where
  "overflows y = (y \<noteq> 0 \<and> 1024 \<le> binade y)"

text \<open>The result of an operation on floats: what rounds beyond the largest float is an infinity.\<close>

definition round_double :: "rat \<Rightarrow> pyfloat" where
  "round_double x =
     (if overflows (float_of x) then (if 0 < float_of x then PInf else NInf)
      else Finite (float_of x))"

text \<open>\<open>float(n)\<close> of a Python integer, which raises where an operation overflows.\<close>

definition float_of_int :: "int \<Rightarrow> py_error + pyfloat" where
  "float_of_int n =
     (if overflows (float_of (of_int n)) then Inl OverflowError
      else Inr (Finite (float_of (of_int n))))"

text \<open>\<open>a * b\<close> on floats.\<close>

fun fmul :: "pyfloat \<Rightarrow> pyfloat \<Rightarrow> pyfloat" where
  "fmul NaN b = NaN"
| "fmul a NaN = NaN"
| "fmul (Finite x) (Finite y) = round_double (x * y)"
| "fmul (Finite x) PInf = (if x = 0 then NaN else if 0 < x then PInf else NInf)"
| "fmul (Finite x) NInf = (if x = 0 then NaN else if 0 < x then NInf else PInf)"
| "fmul PInf (Finite y) = (if y = 0 then NaN else if 0 < y then PInf else NInf)"
| "fmul NInf (Finite y) = (if y = 0 then NaN else if 0 < y then NInf else PInf)"
| "fmul PInf PInf = PInf"
| "fmul NInf NInf = PInf"
| "fmul PInf NInf = NInf"
| "fmul NInf PInf = NInf"

text \<open>\<open>a / b\<close> on floats: Python raises \<open>ZeroDivisionError\<close> on a divisor that is zero.\<close>

fun fdiv :: "pyfloat \<Rightarrow> pyfloat \<Rightarrow> py_error + pyfloat" where
  "fdiv a (Finite y) =
     (if y = 0 then Inl ZeroDivisionError
      else case a of
             Finite x \<Rightarrow> Inr (round_double (x / y))
           | PInf \<Rightarrow> Inr (if 0 < y then PInf else NInf)
           | NInf \<Rightarrow> Inr (if 0 < y then NInf else PInf)
           | NaN \<Rightarrow> Inr NaN)"
| "fdiv a NaN = Inr NaN"
| "fdiv (Finite x) b = Inr (Finite 0)"
| "fdiv a b = Inr NaN"

text \<open>\<open>a < b\<close> and \<open>a >= b\<close> on floats: both are false when either side is NaN.\<close>

fun flt :: "pyfloat \<Rightarrow> pyfloat \<Rightarrow> bool" where
  "flt NaN b = False"
| "flt a NaN = False"
| "flt (Finite x) (Finite y) = (x < y)"
| "flt a NInf = False"
| "flt PInf b = False"
| "flt a b = True"


text \<open>
  A number as \<open>json.load\<close> returns it: an integer of any size, or a float, which may be
  an infinity (a literal beyond the largest float, or \<open>Infinity\<close>) or \<open>NaN\<close>.
\<close>

datatype json_number = JInt int | JFloat pyfloat

text \<open>\<open>float(x)\<close> of such a number.\<close>

fun py_float :: "json_number \<Rightarrow> py_error + pyfloat" where
  "py_float (JInt n) = float_of_int n"
| "py_float (JFloat f) = Inr f"

subsection \<open>The configuration and the coverage report\<close>

text \<open>
  The configuration is the JSON object of \<open>.golang_coverage_lintrc.json\<close>, typed as the
  module's docstring lays it out: two lists of strings, and a coverage section whose
  minimum percentage is a number. Each key may be absent: \<open>None\<close> is a key that is not
  in the dictionary. A JSON document of another shape (\<open>null\<close>, a list, a threshold that
  is no number) is not a value of this type.
\<close>

record coverage_section =
  min_percentage :: "json_number option"

record config =
  skipped_paths :: "string list option"
  skipped_regex_paths :: "string list option"
  coverage :: "coverage_section option"

text \<open>An element of \<open>xml.etree.ElementTree\<close>: its tag, its attributes, its children.\<close>

datatype element =
  Element (tag: string) (attrib: "(string \<times> string) list") (children: "element list")

subsection \<open>The file system\<close>

text \<open>
  The directory tree at the working directory. A regular file is given by what the two
  readers of the script make of its text: \<open>json.load\<close> (\<open>None\<close> when it raises
  \<open>ValueError\<close>) and \<open>ElementTree.parse\<close> (\<open>None\<close> when it raises \<open>ParseError\<close>).
  A directory lists its entries in the order of \<open>os.listdir\<close>, unless it cannot be read.
  A symbolic link has the node it points to, or none when it is broken.
\<close>

datatype node =
    File (as_json: "config option") (as_xml: "element option")
  | Dir (listable: bool) (entries: "(string \<times> node) list")
  | Symlink (target: "node option")

text \<open>
  A path below the working directory is the list of its components; the working
  directory itself is \<open>[]\<close>. \<open>os.path.join(parent, entry)\<close> is \<open>parent @ [entry]\<close>.
\<close>

type_synonym path = "string list"

record host =
  getcwd :: string
  tree :: node
  re_compile :: "string \<Rightarrow> regex option"

text \<open>Following symbolic links, as \<open>os.stat\<close> does.\<close>

fun resolve :: "node \<Rightarrow> node option" where
  "resolve (Symlink None) = None"
| "resolve (Symlink (Some n)) = resolve n"
| "resolve n = Some n"

text \<open>The node at a path: links are followed on the way, not at the last component.\<close>

fun lookup :: "node \<Rightarrow> path \<Rightarrow> node option" where
  "lookup n [] = Some n"
| "lookup n (c # cs) =
     (case resolve n of
        Some (Dir l es) \<Rightarrow> (case map_of es c of Some m \<Rightarrow> lookup m cs | None \<Rightarrow> None)
      | _ \<Rightarrow> None)"

definition stat :: "node \<Rightarrow> path \<Rightarrow> node option" where
  "stat t p = (case lookup t p of None \<Rightarrow> None | Some n \<Rightarrow> resolve n)"

definition isdir :: "node \<Rightarrow> path \<Rightarrow> bool" where
  "isdir t p = (case stat t p of Some (Dir l es) \<Rightarrow> True | _ \<Rightarrow> False)"

definition islink :: "node \<Rightarrow> path \<Rightarrow> bool" where
  "islink t p = (case lookup t p of Some (Symlink n) \<Rightarrow> True | _ \<Rightarrow> False)"

definition isfile :: "node \<Rightarrow> path \<Rightarrow> bool" where
  "isfile t p = (case stat t p of Some (File j x) \<Rightarrow> True | _ \<Rightarrow> False)"

definition listdir :: "node \<Rightarrow> path \<Rightarrow> py_error + string list" where
  "listdir t p =
     (case stat t p of
        Some (Dir l es) \<Rightarrow> if l then Inr (map fst es) else Inl OSError
      | _ \<Rightarrow> Inl OSError)"

text \<open>\<open>posixpath.join(a, b)\<close> on strings.\<close>

definition path_join :: "string \<Rightarrow> string \<Rightarrow> string" where
  "path_join a b =
     (if prefix ''/'' b then b
      else if a = [] \<or> suffix ''/'' a then a @ b
      else a @ ''/'' @ b)"

text \<open>The path as the string the script holds: the working directory joined with each component.\<close>

definition path_str :: "string \<Rightarrow> path \<Rightarrow> string" where
  "path_str cwd p = foldl path_join cwd p"

text \<open>
  \<open>posixpath.relpath(path, start)\<close>, on the components of both: the common prefix is
  dropped, each remaining component of \<open>start\<close> gives \<open>..\<close>, and an empty result is \<open>.\<close>.
\<close>

definition relpath :: "path \<Rightarrow> path \<Rightarrow> string" where
  "relpath p start =
     (let i = length (longest_common_prefix start p);
          rel_list = replicate (length start - i) ''..'' @ drop i p
      in case rel_list of [] \<Rightarrow> ''.'' | c # cs \<Rightarrow> foldl path_join c cs)"

subsection \<open>SkippedPathDetecter\<close>

record detecter =
  d_path_root :: path
  d_skipped_paths :: "string set"
  d_skipped_regex_paths :: "regex list"

text \<open>The loop \<open>for pattern in ...: append(re.compile(pattern))\<close>; it raises at the first bad pattern.\<close>

fun compile_all :: "(string \<Rightarrow> regex option) \<Rightarrow> string list \<Rightarrow> py_error + regex list" where
  "compile_all rc [] = Inr []"
| "compile_all rc (p # ps) =
     (case rc p of
        None \<Rightarrow> Inl RegexError
      | Some r \<Rightarrow> (case compile_all rc ps of Inl e \<Rightarrow> Inl e | Inr rs \<Rightarrow> Inr (r # rs)))"

text \<open>\<open>SkippedPathDetecter.__init__\<close>\<close>

definition SkippedPathDetecter :: "host \<Rightarrow> path \<Rightarrow> config \<Rightarrow> py_error + detecter" where
  "SkippedPathDetecter h path_root cfg =
     (let sp = (case skipped_paths cfg of None \<Rightarrow> {} | Some ps \<Rightarrow> set ps) in
      case compile_all (re_compile h) (case skipped_regex_paths cfg of None \<Rightarrow> [] | Some ps \<Rightarrow> ps) of
        Inl e \<Rightarrow> Inl e
      | Inr rs \<Rightarrow> Inr \<lparr>d_path_root = path_root, d_skipped_paths = sp, d_skipped_regex_paths = rs\<rparr>)"

text \<open>\<open>SkippedPathDetecter.should_skip\<close>\<close>

definition should_skip :: "node \<Rightarrow> detecter \<Rightarrow> path \<Rightarrow> bool" where
  "should_skip t d p =
     (if \<not> isdir t p then True
      else if islink t p then True
      else let rel_path = relpath p (d_path_root d) in
        if rel_path \<in> set ALWAYS_SKIPPED then True
        else if rel_path \<in> d_skipped_paths d then True
        else list_ex (\<lambda>prog. prog rel_path) (d_skipped_regex_paths d))"

text \<open>\<open>should_skip_file\<close>\<close>

definition should_skip_file :: "string \<Rightarrow> regex list \<Rightarrow> bool" where
  "should_skip_file p ignored_file_regex_paths = list_ex (\<lambda>reg. reg p) ignored_file_regex_paths"

subsection \<open>Logging\<close>

text \<open>
  One constructor for each \<open>logging\<close> call of the script, with the values it formats.
  The log of a run is the list of the calls made, in order, whatever the level shown.
\<close>

datatype log_record =
    Info_create_config
  | Error_parse_config
  | Debug_looking path
  | Error_found_without_tests
  | Error_bad_path string
  | Info_skipping_coverage
  | Error_no_threshold
  | Error_no_report
  | Info_calculated nat nat pyfloat
  | Error_expected_coverage pyfloat pyfloat nat nat

subsection \<open>all\_directories\_have\_tests\<close>

text \<open>
  The state of the \<open>while\<close> loop: the stack \<open>unvisited_paths\<close> (its top is the last
  element, as \<open>pop()\<close> and \<open>append\<close> have it), the list \<open>bad_paths\<close>, the log, and the
  exception raised, if any.
\<close>

record scan_state =
  unvisited_paths :: "path list"
  bad_paths :: "path list"
  logged :: "log_record list"
  raised :: "py_error option"

text \<open>The first \<open>for\<close> loop of the body: the entries to visit later, in listing order.\<close>

definition subdirectories :: "node \<Rightarrow> detecter \<Rightarrow> path \<Rightarrow> string list \<Rightarrow> path list" where
  "subdirectories t d parent_directory_path directory_entries =
     filter (\<lambda>p. \<not> should_skip t d p)
       (map (\<lambda>entry. parent_directory_path @ [entry]) directory_entries)"

text \<open>
  One round of the second \<open>for\<close> loop, on the pair
  \<open>(found_go_file, found_test_file)\<close>.
\<close>

definition check_entry :: "string \<Rightarrow> regex list \<Rightarrow> path \<Rightarrow> bool \<times> bool \<Rightarrow> string \<Rightarrow> bool \<times> bool" where
  "check_entry cwd ignored parent_directory_path found entry =
     (if endswith entry GO_FILE_SUFFIX then
        (if should_skip_file (path_str cwd (parent_directory_path @ [entry])) ignored then found
         else (True, snd found \<or> endswith entry GO_TEST_FILE_SUFFIX))
      else found)"

definition found_files :: "string \<Rightarrow> regex list \<Rightarrow> path \<Rightarrow> string list \<Rightarrow> bool \<times> bool" where
  "found_files cwd ignored parent_directory_path directory_entries =
     foldl (check_entry cwd ignored parent_directory_path) (False, False) directory_entries"

text \<open>The body of the \<open>while\<close> loop, entered with a stack that is not empty.\<close>

definition scan_directory :: "host \<Rightarrow> detecter \<Rightarrow> regex list \<Rightarrow> scan_state \<Rightarrow> scan_state" where
  "scan_directory h d ignored st =
     (let parent_directory_path = last (unvisited_paths st);
          st1 = st\<lparr>unvisited_paths := butlast (unvisited_paths st),
                   logged := logged st @ [Debug_looking parent_directory_path]\<rparr>
      in case listdir (tree h) parent_directory_path of
           Inl e \<Rightarrow> st1\<lparr>raised := Some e\<rparr>
         | Inr directory_entries \<Rightarrow>
             let st2 = st1\<lparr>unvisited_paths := unvisited_paths st1 @
                         subdirectories (tree h) d parent_directory_path directory_entries\<rparr>;
                 found = found_files (getcwd h) ignored parent_directory_path directory_entries
             in if fst found \<and> \<not> snd found
                then st2\<lparr>bad_paths := bad_paths st2 @ [parent_directory_path]\<rparr>
                else st2)"

text \<open>\<open>while unvisited_paths:\<close>, left at an exception.\<close>

function scan_loop :: "host \<Rightarrow> detecter \<Rightarrow> regex list \<Rightarrow> scan_state \<Rightarrow> scan_state" where
  "scan_loop h d ignored st =
     (if unvisited_paths st = [] \<or> raised st \<noteq> None then st
      else scan_loop h d ignored (scan_directory h d ignored st))"
  by pat_completeness auto

definition initial_state :: "path \<Rightarrow> scan_state" where
  "initial_state path_root =
     \<lparr>unvisited_paths = [path_root], bad_paths = [], logged = [], raised = None\<rparr>"

definition all_directories_have_tests ::
  "host \<Rightarrow> path \<Rightarrow> config \<Rightarrow> regex list \<Rightarrow> log_record list \<times> (py_error + bool)" where
  "all_directories_have_tests h path_root cfg ignored_file_regex_paths =
     (case SkippedPathDetecter h path_root cfg of
        Inl e \<Rightarrow> ([], Inl e)
      | Inr skipped_path_detecter \<Rightarrow>
          let st = scan_loop h skipped_path_detecter ignored_file_regex_paths
                     (initial_state path_root)
          in case raised st of
               Some e \<Rightarrow> (logged st, Inl e)
             | None \<Rightarrow>
                 if bad_paths st \<noteq> [] then
                   (logged st @ Error_found_without_tests #
                      map (\<lambda>p. Error_bad_path (relpath p path_root)) (bad_paths st),
                    Inr False)
                 else (logged st, Inr True))"

text \<open>
  The weight of a node bounds the number of rounds of the loop below it: each entry of
  a directory is pushed at most once, and stands for a node no heavier than the
  heaviest child.
\<close>

fun weight :: "node \<Rightarrow> nat" where
  "weight (File j x) = 0"
| "weight (Symlink None) = 0"
| "weight (Symlink (Some n)) = weight n"
| "weight (Dir l es) = Suc (length es * foldr max (map (\<lambda>e. weight (snd e)) es) 0)"

definition weight_at :: "node \<Rightarrow> path \<Rightarrow> nat" where
  "weight_at t p = (case stat t p of None \<Rightarrow> 0 | Some n \<Rightarrow> weight n)"

definition rounds_left :: "node \<Rightarrow> scan_state \<Rightarrow> nat" where
  "rounds_left t st =
     (if raised st \<noteq> None then 0 else Suc (sum_list (map (weight_at t) (unvisited_paths st))))"

subsection \<open>coverage\_is\_sufficient\<close>

text \<open>\<open>Element.iter()\<close>: the element and all elements below it, in document order.\<close>

fun iter_all :: "element \<Rightarrow> element list" where
  "iter_all (Element t a cs) = Element t a cs # concat (map iter_all cs)"

text \<open>\<open>Element.iter(tag)\<close>\<close>

definition iter :: "element \<Rightarrow> string \<Rightarrow> element list" where
  "iter e t = filter (\<lambda>x. tag x = t) (iter_all e)"

text \<open>\<open>Element.get(key)\<close>: \<open>None\<close> when the attribute is absent.\<close>

definition get :: "element \<Rightarrow> string \<Rightarrow> string option" where
  "get e k = map_of (attrib e) k"

text \<open>The body of the innermost loop, on the pair \<open>(uncovered_lines, covered_lines)\<close>.\<close>

definition count_line :: "nat \<times> nat \<Rightarrow> element \<Rightarrow> nat \<times> nat" where
  "count_line counts line =
     (if get line ''hits'' = Some ''0'' then (fst counts + 1, snd counts)
      else (fst counts, snd counts + 1))"

text \<open>The three nested \<open>for\<close> loops.\<close>

definition count_lines :: "element \<Rightarrow> nat \<times> nat" where
  "count_lines root_element =
     foldl (\<lambda>counts class_to_check.
        foldl (\<lambda>counts method. foldl count_line counts (iter method ''line''))
          counts (iter class_to_check ''method''))
       (0, 0) (iter root_element ''class'')"

text \<open>\<open>xml.etree.ElementTree.parse(path).getroot()\<close>, on a path that is a file.\<close>

definition parse_xml :: "node \<Rightarrow> path \<Rightarrow> py_error + element" where
  "parse_xml t p =
     (case stat t p of
        Some (File j (Some e)) \<Rightarrow> Inr e
      | _ \<Rightarrow> Inl ParseError)"

text \<open>
  \<open>100.0 * float(covered_lines) / float(total_lines)\<close>, in the order Python evaluates
  it: the conversion of the covered lines, the product, the conversion of the total, the
  quotient.
\<close>

definition percentage :: "nat \<Rightarrow> nat \<Rightarrow> py_error + pyfloat" where
  "percentage covered_lines total_lines =
     (case float_of_int (int covered_lines) of
        Inl e \<Rightarrow> Inl e
      | Inr covered \<Rightarrow>
         (case float_of_int (int total_lines) of
            Inl e \<Rightarrow> Inl e
          | Inr total_float \<Rightarrow> fdiv (fmul (Finite 100) covered) total_float))"

definition coverage_is_sufficient ::
  "host \<Rightarrow> path \<Rightarrow> config \<Rightarrow> log_record list \<times> (py_error + bool)" where
  "coverage_is_sufficient h path_root cfg =
     (case coverage cfg of
        None \<Rightarrow> ([Info_skipping_coverage], Inr True)
      | Some coverage_cfg \<Rightarrow>
         (case min_percentage coverage_cfg of
            None \<Rightarrow> ([Error_no_threshold], Inr False)
          | Some threshold \<Rightarrow>
              let coverage_file_path = path_root @ [COVERAGE_REPORT_FILE] in
              if \<not> isfile (tree h) coverage_file_path then ([Error_no_report], Inr False)
              else
               (case parse_xml (tree h) coverage_file_path of
                  Inl e \<Rightarrow> ([], Inl e)
                | Inr root_element \<Rightarrow>
                    let counts = count_lines root_element;
                        uncovered_lines = fst counts;
                        covered_lines = snd counts;
                        total_lines = covered_lines + uncovered_lines
                    in case percentage covered_lines total_lines of
                         Inl e \<Rightarrow> ([], Inl e)
                       | Inr actual_percent \<Rightarrow>
                          (case py_float threshold of
                             Inl e \<Rightarrow> ([], Inl e)
                           | Inr min_percent \<Rightarrow>
                               let info = Info_calculated covered_lines total_lines actual_percent
                               in if flt actual_percent min_percent then
                                    ([info, Error_expected_coverage min_percent actual_percent
                                              covered_lines total_lines],
                                     Inr False)
                                  else ([info], Inr True)))))"

subsection \<open>main\<close>

text \<open>
  The arguments as \<open>parse_args\<close> returns them. The two flags set the level of the log
  shown and nothing else.
\<close>

record args =
  verbose :: bool
  debug :: bool
  cover_ignore_srcs :: "string option"

text \<open>\<open>load_config_file\<close>, on a path that is a file: the configuration, or \<open>None\<close> and an error logged.\<close>

definition load_config_file :: "node \<Rightarrow> path \<Rightarrow> log_record list \<times> config option" where
  "load_config_file t config_path =
     (case stat t config_path of
        Some (File (Some cfg) x) \<Rightarrow> ([], Some cfg)
      | _ \<Rightarrow> ([Error_parse_config], None))"

text \<open>\<open>str.strip()\<close> and \<open>str.split()\<close> of a byte string, at ASCII white space.\<close>

definition isspace :: "char \<Rightarrow> bool" where
  "isspace c = (c \<in> set [CHR '' '', CHR 0x09, CHR 0x0A, CHR 0x0B, CHR 0x0C, CHR 0x0D])"

definition str_strip :: "string \<Rightarrow> string" where
  "str_strip s = rev (dropWhile isspace (rev (dropWhile isspace s)))"

fun split_words :: "string \<Rightarrow> string \<Rightarrow> string list" where
  "split_words w [] = (if w = [] then [] else [w])"
| "split_words w (c # cs) =
     (if isspace c then (if w = [] then split_words [] cs else w # split_words [] cs)
      else split_words (w @ [c]) cs)"

definition str_split :: "string \<Rightarrow> string list" where
  "str_split s = split_words [] s"

text \<open>
  \<open>main\<close>, after \<open>parse_args\<close>; the project root \<open>os.getcwd()\<close> is the path \<open>[]\<close>. The
  result is the log and the value returned (the exit status), or the exception raised.
\<close>

definition main :: "host \<Rightarrow> args \<Rightarrow> log_record list \<times> (py_error + int)" where
  "main h a =
     (let path_root = [];
          config_path = path_root @ [CONFIG_FILE_NAME]
      in if \<not> isfile (tree h) config_path then ([Info_create_config], Inr 0)
         else
          (case load_config_file (tree h) config_path of
             (log0, None) \<Rightarrow> (log0, Inr 1)
           | (log0, Some cfg) \<Rightarrow>
              (case compile_all (re_compile h)
                      (case cover_ignore_srcs a of
                         None \<Rightarrow> []
                       | Some srcs \<Rightarrow> str_split (str_strip srcs)) of
                 Inl e \<Rightarrow> (log0, Inl e)
               | Inr ignored_file_regex_paths \<Rightarrow>
                  (case all_directories_have_tests h path_root cfg ignored_file_regex_paths of
                     (log1, Inl e) \<Rightarrow> (log0 @ log1, Inl e)
                   | (log1, Inr False) \<Rightarrow> (log0 @ log1, Inr 1)
                   | (log1, Inr True) \<Rightarrow>
                      (case coverage_is_sufficient h path_root cfg of
                         (log2, Inl e) \<Rightarrow> (log0 @ log1 @ log2, Inl e)
                       | (log2, Inr False) \<Rightarrow> (log0 @ log1 @ log2, Inr 1)
                       | (log2, Inr True) \<Rightarrow> (log0 @ log1 @ log2, Inr 0))))))"

subsection \<open>What a run of the traversal shows\<close>

text \<open>
  The directories the loop has entered, in order: the script logs each one before it
  lists it.
\<close>

fun visited :: "log_record list \<Rightarrow> path list" where
  "visited [] = []"
| "visited (Debug_looking p # rs) = p # visited rs"
| "visited (r # rs) = visited rs"

text \<open>The states of the loop in a run from \<open>path_root\<close>: the first, and each one a round later.\<close>

inductive reachable :: "host \<Rightarrow> detecter \<Rightarrow> regex list \<Rightarrow> path \<Rightarrow> scan_state \<Rightarrow> bool"
  for h d ignored path_root where
    start: "reachable h d ignored path_root (initial_state path_root)"
  | round: "reachable h d ignored path_root st \<Longrightarrow> unvisited_paths st \<noteq> [] \<Longrightarrow>
            raised st = None \<Longrightarrow>
            reachable h d ignored path_root (scan_directory h d ignored st)"

text \<open>
  The specification's words for a directory that needs tests: it can be listed, some
  entry ends with \<open>.go\<close> and has a full path that no file-ignore pattern matches, and no
  such entry ends with \<open>_test.go\<close>.
\<close>

definition counted_entry :: "host \<Rightarrow> regex list \<Rightarrow> path \<Rightarrow> string \<Rightarrow> bool" where
  "counted_entry h ignored dir entry =
     (endswith entry ''.go'' \<and>
      \<not> (\<exists>reg \<in> set ignored. reg (path_str (getcwd h) (dir @ [entry]))))"

definition lacks_tests :: "host \<Rightarrow> regex list \<Rightarrow> path \<Rightarrow> bool" where
  "lacks_tests h ignored dir =
     (case listdir (tree h) dir of
        Inl e \<Rightarrow> False
      | Inr dir_entries \<Rightarrow>
          (\<exists>entry \<in> set dir_entries. counted_entry h ignored dir entry) \<and>
          \<not> (\<exists>entry \<in> set dir_entries.
                counted_entry h ignored dir entry \<and> endswith entry ''_test.go''))"

text \<open>
  The line elements the three loops of \<open>coverage_is_sufficient\<close> meet, in order: for each
  \<open>class\<close> element of the report, for each \<open>method\<close> element at or below it, the \<open>line\<close>
  elements at or below that.
\<close>

definition method_lines :: "element \<Rightarrow> element list" where
  "method_lines root_element =
     concat (map (\<lambda>class_to_check.
        concat (map (\<lambda>method. iter method ''line'') (iter class_to_check ''method'')))
       (iter root_element ''class''))"

text \<open>The records that \<open>coverage_is_sufficient\<close> logs.\<close>

fun from_coverage_gate :: "log_record \<Rightarrow> bool" where
  "from_coverage_gate Info_skipping_coverage = True"
| "from_coverage_gate Error_no_threshold = True"
| "from_coverage_gate Error_no_report = True"
| "from_coverage_gate (Info_calculated c t p) = True"
| "from_coverage_gate (Error_expected_coverage m p c t) = True"
| "from_coverage_gate r = False"

subsection \<open>A project to run the script on\<close>

text \<open>
  A small project: a vendored package, a package with a test, a package without one, a
  directory of mocks, a link, and a source file at the root. Its engine of regular
  expressions knows the one pattern \<open>mock\<close>, which matches the strings that start with it.
\<close>

definition example_engine :: "string \<Rightarrow> regex option" where
  "example_engine pattern = (if pattern = ''mock'' then Some (prefix ''mock'') else None)"

definition example_tree :: node where
  "example_tree = Dir True
     [(''vendor'', Dir True [(''v.go'', File None None)]),
      (''pkg'', Dir True [(''x.go'', File None None), (''x_test.go'', File None None)]),
      (''lib'', Dir True [(''x.go'', File None None)]),
      (''mocks'', Dir True [(''m.go'', File None None)]),
      (''link'', Symlink (Some (Dir True []))),
      (''main.go'', File None None)]"

definition example_host :: host where
  "example_host = \<lparr>getcwd = ''/repo'', tree = example_tree, re_compile = example_engine\<rparr>"

text \<open>A configuration whose skipped paths name the root itself.\<close>

definition example_config :: config where
  "example_config =
     \<lparr>skipped_paths = Some [''.''], skipped_regex_paths = Some [''mock''], coverage = None\<rparr>"

definition example_detecter :: detecter where
  "example_detecter =
     \<lparr>d_path_root = [], d_skipped_paths = {''.''}, d_skipped_regex_paths = [prefix ''mock'']\<rparr>"

text \<open>
  Projects with a configuration file and a coverage report: one whose only package has a
  test, one with a package that has none. The report has one class with one method, with
  so many lines hit once and so many not hit.
\<close>

definition example_line :: "string option \<Rightarrow> element" where
  "example_line hits =
     Element ''line'' (case hits of None \<Rightarrow> [] | Some v \<Rightarrow> [(''hits'', v)]) []"

definition example_report :: "nat \<Rightarrow> nat \<Rightarrow> element" where
  "example_report covered uncovered =
     Element ''coverage'' []
       [Element ''class'' [(''name'', ''a'')]
          [Element ''method'' [(''name'', ''f'')]
             (replicate covered (example_line (Some ''1'')) @
              replicate uncovered (example_line (Some ''0'')))]]"

definition threshold_config :: "json_number \<Rightarrow> config" where
  "threshold_config threshold =
     \<lparr>skipped_paths = None, skipped_regex_paths = None,
      coverage = Some \<lparr>min_percentage = Some threshold\<rparr>\<rparr>"

definition tested_project :: "config option \<Rightarrow> element \<Rightarrow> host" where
  "tested_project cfg report =
     \<lparr>getcwd = ''/repo'',
      tree = Dir True
        [(''.golang_coverage_lintrc.json'', File cfg None),
         (''coverage.xml'', File None (Some report)),
         (''pkg'', Dir True [(''x.go'', File None None), (''x_test.go'', File None None)])],
      re_compile = example_engine\<rparr>"

definition untested_project :: "config option \<Rightarrow> element \<Rightarrow> host" where
  "untested_project cfg report =
     \<lparr>getcwd = ''/repo'',
      tree = Dir True
        [(''.golang_coverage_lintrc.json'', File cfg None),
         (''coverage.xml'', File None (Some report)),
         (''lib'', Dir True [(''x.go'', File None None)])],
      re_compile = example_engine\<rparr>"

definition no_arguments :: args where
  "no_arguments = \<lparr>verbose = False, debug = False, cover_ignore_srcs = None\<rparr>"

section \<open>Termination of the traversal\<close>

text \<open>
  Each round of the loop pops a directory and pushes entries of it that are directories
  and no links, so the weights on the stack go down.
\<close>

lemma lookup_append:
  "lookup t (p @ [e]) =
     (case lookup t p of
        None \<Rightarrow> None
      | Some n \<Rightarrow> (case resolve n of Some (Dir l es) \<Rightarrow> map_of es e | _ \<Rightarrow> None))"
  by (induction t p rule: lookup.induct)
     (auto split: option.splits node.splits)

lemma weight_resolve: "resolve n = Some m \<Longrightarrow> weight m = weight n"
  by (induction n rule: resolve.induct) auto

lemma foldr_max_ge: "x \<in> set xs \<Longrightarrow> x \<le> foldr max xs (0::nat)"
  by (induction xs) (auto simp: max_def)

lemma weight_child:
  assumes "map_of es e = Some c"
  shows "weight c \<le> foldr max (map (\<lambda>e. weight (snd e)) es) 0"
proof -
  from assms have "(e, c) \<in> set es" by (rule map_of_SomeD)
  then have "weight c \<in> set (map (\<lambda>e. weight (snd e)) es)" by force
  then show ?thesis by (rule foldr_max_ge)
qed

lemma weight_at_child:
  assumes "stat t p = Some (Dir l es)"
  shows "weight_at t (p @ [e]) \<le> foldr max (map (\<lambda>e. weight (snd e)) es) 0"
proof (cases "stat t (p @ [e])")
  case None
  then show ?thesis by (simp add: weight_at_def)
next
  case (Some m)
  from assms obtain n where n: "lookup t p = Some n" "resolve n = Some (Dir l es)"
    by (auto simp: stat_def split: option.splits)
  with Some obtain c where c: "map_of es e = Some c" "resolve c = Some m"
    by (auto simp: stat_def lookup_append split: option.splits)
  from c(2) have "weight m = weight c" by (rule weight_resolve)
  with weight_child [OF c(1)] Some show ?thesis by (simp add: weight_at_def)
qed

lemma sum_list_bounded:
  "(\<And>x. x \<in> set xs \<Longrightarrow> f x \<le> (b::nat)) \<Longrightarrow> sum_list (map f xs) \<le> length xs * b"
  by (induction xs) (auto simp: add_mono)

lemma weight_subdirectories:
  assumes "stat t p = Some (Dir l es)"
  shows "sum_list (map (weight_at t) (subdirectories t d p (map fst es))) < weight_at t p"
proof -
  let ?b = "foldr max (map (\<lambda>e. weight (snd e)) es) 0"
  let ?ps = "subdirectories t d p (map fst es)"
  have "\<And>q. q \<in> set ?ps \<Longrightarrow> weight_at t q \<le> ?b"
    using weight_at_child [OF assms] by (auto simp: subdirectories_def)
  then have "sum_list (map (weight_at t) ?ps) \<le> length ?ps * ?b"
    by (rule sum_list_bounded)
  also have "length ?ps \<le> length es"
    unfolding subdirectories_def by (rule order_trans [OF length_filter_le]) simp
  then have "length ?ps * ?b \<le> length es * ?b" by simp
  finally show ?thesis using assms by (simp add: weight_at_def)
qed

lemma listdir_Inr:
  "listdir t p = Inr names \<Longrightarrow> \<exists>es. stat t p = Some (Dir True es) \<and> names = map fst es"
  by (auto simp: listdir_def split: option.splits node.splits if_splits)

lemma rounds_left_scan_directory:
  assumes "unvisited_paths st \<noteq> []" and "raised st = None"
  shows "rounds_left (tree h) (scan_directory h d ignored st) < rounds_left (tree h) st"
proof (cases "listdir (tree h) (last (unvisited_paths st))")
  case (Inl e)
  with assms show ?thesis by (simp add: rounds_left_def scan_directory_def Let_def)
next
  case (Inr names)
  then obtain es where es: "stat (tree h) (last (unvisited_paths st)) = Some (Dir True es)"
    "names = map fst es"
    using listdir_Inr by blast
  have split: "unvisited_paths st = butlast (unvisited_paths st) @ [last (unvisited_paths st)]"
    using assms(1) by simp
  have "sum_list (map (weight_at (tree h)) (unvisited_paths st)) =
        sum_list (map (weight_at (tree h)) (butlast (unvisited_paths st))) +
        weight_at (tree h) (last (unvisited_paths st))"
    by (subst split) simp
  with weight_subdirectories [OF es(1), of d] Inr es(2) assms(2) show ?thesis
    by (simp add: rounds_left_def scan_directory_def Let_def)
qed

termination scan_loop
  by (relation "measure (\<lambda>(h, d, ignored, st). rounds_left (tree h) st)")
     (auto intro: rounds_left_scan_directory)

declare scan_loop.simps [simp del]

lemma scan_loop_stop:
  "unvisited_paths st = [] \<or> raised st \<noteq> None \<Longrightarrow> scan_loop h d ignored st = st"
  by (subst scan_loop.simps) simp

lemma scan_loop_step:
  "unvisited_paths st \<noteq> [] \<Longrightarrow> raised st = None \<Longrightarrow>
   scan_loop h d ignored st = scan_loop h d ignored (scan_directory h d ignored st)"
  by (subst scan_loop.simps) simp

section \<open>The path filter\<close>

lemma compile_all_Inr:
  "compile_all rc ps = Inr rs \<Longrightarrow> map rc ps = map Some rs"
  by (induction ps arbitrary: rs) (auto split: option.splits sum.splits)

lemma SkippedPathDetecter_Inr:
  assumes "SkippedPathDetecter h path_root cfg = Inr d"
  shows "d_path_root d = path_root"
    and "d_skipped_paths d = (case skipped_paths cfg of None \<Rightarrow> {} | Some ps \<Rightarrow> set ps)"
    and "map (re_compile h) (case skipped_regex_paths cfg of None \<Rightarrow> [] | Some ps \<Rightarrow> ps)
           = map Some (d_skipped_regex_paths d)"
  using assms
  by (auto simp: SkippedPathDetecter_def Let_def dest: compile_all_Inr split: sum.splits)

lemma map_eq_Some_ex:
  "map f ps = map Some rs \<Longrightarrow>
   (\<exists>r \<in> set rs. P r) \<longleftrightarrow> (\<exists>p \<in> set ps. \<exists>r. f p = Some r \<and> P r)"
proof (induction ps arbitrary: rs)
  case Nil
  then show ?case by simp
next
  case (Cons p ps)
  then obtain r rs' where "rs = r # rs'" "f p = Some r" "map f ps = map Some rs'"
    by (cases rs) auto
  with Cons.IH [of rs'] show ?case by auto
qed

lemma example_detecter_init:
  "SkippedPathDetecter example_host [] example_config = Inr example_detecter"
  by (simp add: SkippedPathDetecter_def example_host_def example_config_def
      example_engine_def example_detecter_def)

text \<open>
  Claim C7. With the detecter built from a configuration, \<open>should_skip\<close> holds of a path
  exactly when the path is not a directory, or is a symbolic link, or its path relative
  to the root is one of \<open>.git\<close>, \<open>.gen\<close>, \<open>.tmp\<close>, \<open>vendor\<close>, \<open>go-build\<close>, or is one of the
  configured skipped paths, or is matched by \<open>re.match\<close> with one of the configured
  patterns. No test has an effect, so the order in which the script makes them, the one
  of the five disjuncts, shows in no other way than in the result.
\<close>

theorem should_skip_iff:
  assumes "SkippedPathDetecter h path_root cfg = Inr d"
  shows "should_skip (tree h) d p \<longleftrightarrow>
     \<not> isdir (tree h) p \<or>
     islink (tree h) p \<or>
     relpath p path_root \<in> {''.git'', ''.gen'', ''.tmp'', ''vendor'', ''go-build''} \<or>
     (\<exists>ps. skipped_paths cfg = Some ps \<and> relpath p path_root \<in> set ps) \<or>
     (\<exists>ps. skipped_regex_paths cfg = Some ps \<and>
        (\<exists>pattern \<in> set ps. \<exists>prog.
            re_compile h pattern = Some prog \<and> prog (relpath p path_root)))"
proof -
  note d = SkippedPathDetecter_Inr [OF assms]
  have paths: "relpath p path_root \<in> d_skipped_paths d \<longleftrightarrow>
      (\<exists>ps. skipped_paths cfg = Some ps \<and> relpath p path_root \<in> set ps)"
    by (simp add: d(2) split: option.splits)
  have progs: "(\<exists>prog \<in> set (d_skipped_regex_paths d). prog (relpath p path_root)) \<longleftrightarrow>
      (\<exists>ps. skipped_regex_paths cfg = Some ps \<and>
        (\<exists>pattern \<in> set ps. \<exists>prog.
            re_compile h pattern = Some prog \<and> prog (relpath p path_root)))"
  proof (cases "skipped_regex_paths cfg")
    case None
    with d(3) show ?thesis by simp
  next
    case (Some ps)
    with d(3) have "map (re_compile h) ps = map Some (d_skipped_regex_paths d)" by simp
    from map_eq_Some_ex [OF this, of "\<lambda>prog. prog (relpath p path_root)"] Some
    show ?thesis by simp
  qed
  have "should_skip (tree h) d p \<longleftrightarrow>
     \<not> isdir (tree h) p \<or> islink (tree h) p \<or>
     relpath p path_root \<in> set ALWAYS_SKIPPED \<or>
     relpath p path_root \<in> d_skipped_paths d \<or>
     (\<exists>prog \<in> set (d_skipped_regex_paths d). prog (relpath p path_root))"
    by (auto simp: should_skip_def Let_def d(1) list_ex_iff)
  then show ?thesis
    unfolding paths progs by (simp add: ALWAYS_SKIPPED_def)
qed

text \<open>
  In the example the vendored directory is skipped by its name, the directory of mocks by
  the configured pattern, the link as a link, the source file as no directory, and the
  package \<open>pkg\<close> is not skipped.
\<close>

theorem should_skip_iff_witness:
  "should_skip (tree example_host) example_detecter [''vendor''] \<and>
   should_skip (tree example_host) example_detecter [''mocks''] \<and>
   should_skip (tree example_host) example_detecter [''link''] \<and>
   should_skip (tree example_host) example_detecter [''main.go''] \<and>
   isdir (tree example_host) [''link''] \<and>
   \<not> should_skip (tree example_host) example_detecter [''pkg'']"
  using should_skip_iff [OF example_detecter_init, of "[''vendor'']"]
    should_skip_iff [OF example_detecter_init, of "[''mocks'']"]
    should_skip_iff [OF example_detecter_init, of "[''link'']"]
    should_skip_iff [OF example_detecter_init, of "[''main.go'']"]
    should_skip_iff [OF example_detecter_init, of "[''pkg'']"]
  by (simp add: example_host_def example_tree_def example_config_def example_engine_def
      isdir_def islink_def stat_def relpath_def)

section \<open>The package scanner\<close>

lemma visited_append: "visited (rs @ [Debug_looking p]) = visited rs @ [p]"
  by (induction rs rule: visited.induct) auto

lemma visited_set: "p \<in> set (visited rs) \<longleftrightarrow> Debug_looking p \<in> set rs"
  by (induction rs rule: visited.induct) auto

lemma foldl_check_entry:
  "foldl (check_entry (getcwd h) ignored dir) found es =
     (fst found \<or> (\<exists>e \<in> set es. counted_entry h ignored dir e),
      snd found \<or> (\<exists>e \<in> set es. counted_entry h ignored dir e \<and> endswith e ''_test.go''))"
proof (induction es arbitrary: found)
  case Nil
  show ?case by simp
next
  case (Cons e es)
  show ?case
    unfolding foldl_Cons Cons.IH
    by (auto simp: check_entry_def counted_entry_def should_skip_file_def list_ex_iff
        GO_FILE_SUFFIX_def GO_TEST_FILE_SUFFIX_def)
qed

lemma found_files_lacks_tests:
  assumes "listdir (tree h) dir = Inr es"
  shows "fst (found_files (getcwd h) ignored dir es) \<and> \<not> snd (found_files (getcwd h) ignored dir es)
         \<longleftrightarrow> lacks_tests h ignored dir"
  using assms by (simp add: found_files_def foldl_check_entry lacks_tests_def)

lemma scan_directory_fields:
  "logged (scan_directory h d ignored st) = logged st @ [Debug_looking (last (unvisited_paths st))]"
  "bad_paths (scan_directory h d ignored st) =
     bad_paths st @ (if lacks_tests h ignored (last (unvisited_paths st))
                     then [last (unvisited_paths st)] else [])"
  "unvisited_paths (scan_directory h d ignored st) =
     butlast (unvisited_paths st) @
       (case listdir (tree h) (last (unvisited_paths st)) of
          Inl e \<Rightarrow> []
        | Inr es \<Rightarrow> subdirectories (tree h) d (last (unvisited_paths st)) es)"
  "raised (scan_directory h d ignored st) =
     (case listdir (tree h) (last (unvisited_paths st)) of
          Inl e \<Rightarrow> Some e
        | Inr es \<Rightarrow> raised st)"
proof -
  show "logged (scan_directory h d ignored st) = logged st @ [Debug_looking (last (unvisited_paths st))]"
    by (simp add: scan_directory_def Let_def split: sum.splits)
  show "bad_paths (scan_directory h d ignored st) =
     bad_paths st @ (if lacks_tests h ignored (last (unvisited_paths st))
                     then [last (unvisited_paths st)] else [])"
  proof (cases "listdir (tree h) (last (unvisited_paths st))")
    case (Inl e)
    then show ?thesis by (simp add: scan_directory_def Let_def lacks_tests_def)
  next
    case (Inr es)
    with found_files_lacks_tests [OF Inr, of ignored] show ?thesis
      by (simp add: scan_directory_def Let_def)
  qed
  show "unvisited_paths (scan_directory h d ignored st) =
     butlast (unvisited_paths st) @
       (case listdir (tree h) (last (unvisited_paths st)) of
          Inl e \<Rightarrow> []
        | Inr es \<Rightarrow> subdirectories (tree h) d (last (unvisited_paths st)) es)"
    by (simp add: scan_directory_def Let_def split: sum.splits)
  show "raised (scan_directory h d ignored st) =
     (case listdir (tree h) (last (unvisited_paths st)) of
          Inl e \<Rightarrow> Some e
        | Inr es \<Rightarrow> raised st)"
    by (simp add: scan_directory_def Let_def split: sum.splits)
qed

lemma scan_loop_invariant:
  assumes "P st"
    and "\<And>st. P st \<Longrightarrow> unvisited_paths st \<noteq> [] \<Longrightarrow> raised st = None \<Longrightarrow>
           P (scan_directory h d ignored st)"
  shows "P (scan_loop h d ignored st)"
  using assms
proof (induction h d ignored st rule: scan_loop.induct)
  case (1 h d ignored st)
  show ?case
  proof (cases "unvisited_paths st = [] \<or> raised st \<noteq> None")
    case True
    with "1.prems"(1) show ?thesis by (simp add: scan_loop_stop)
  next
    case False
    then have "P (scan_directory h d ignored st)" using "1.prems" by simp
    with False "1.IH" "1.prems"(2) show ?thesis by (simp add: scan_loop_step)
  qed
qed

lemma reachable_final:
  "reachable h d ignored path_root (scan_loop h d ignored (initial_state path_root))"
  by (rule scan_loop_invariant) (auto intro: reachable.intros)

lemma reachable_bad_paths:
  "reachable h d ignored path_root st \<Longrightarrow>
   bad_paths st = filter (lacks_tests h ignored) (visited (logged st))"
proof (induction rule: reachable.induct)
  case start
  show ?case by (simp add: initial_state_def)
next
  case (round st)
  then show ?case by (simp add: scan_directory_fields visited_append)
qed

lemma longest_common_prefix_self: "longest_common_prefix p p = p"
  by (induction p) auto

lemma relpath_self: "relpath p p = ''.''"
  by (simp add: relpath_def longest_common_prefix_self)

lemma subdirectories_not_skipped:
  "q \<in> set (subdirectories t d p es) \<Longrightarrow> \<not> should_skip t d q"
  by (simp add: subdirectories_def)

lemma not_skipped_not_always:
  "\<not> should_skip t d q \<Longrightarrow> relpath q (d_path_root d) \<notin> set ALWAYS_SKIPPED"
  by (auto simp: should_skip_def Let_def split: if_splits)

lemma reachable_never_always_skipped:
  assumes "reachable h d ignored path_root st" and "d_path_root d = path_root"
  shows "\<forall>q \<in> set (unvisited_paths st) \<union> set (visited (logged st)) \<union> set (bad_paths st).
           relpath q path_root \<notin> set ALWAYS_SKIPPED"
  using assms(1)
proof (induction rule: reachable.induct)
  case start
  show ?case by (simp add: initial_state_def relpath_self ALWAYS_SKIPPED_def)
next
  case (round st)
  let ?p = "last (unvisited_paths st)"
  from round.hyps(2) have top: "?p \<in> set (unvisited_paths st)" by simp
  have rest: "set (butlast (unvisited_paths st)) \<subseteq> set (unvisited_paths st)"
    by (auto dest: in_set_butlastD)
  have new: "relpath q path_root \<notin> set ALWAYS_SKIPPED"
    if "q \<in> set (subdirectories (tree h) d ?p es)" for q es
    using that assms(2) subdirectories_not_skipped not_skipped_not_always by blast
  show ?case
    using round.IH top rest new
    by (auto simp: scan_directory_fields visited_append split: sum.splits if_splits)
qed

lemma scan_loop_extends:
  "\<exists>l b. logged (scan_loop h d ignored st) = logged st @ l \<and>
         bad_paths (scan_loop h d ignored st) = bad_paths st @ b"
proof (induction h d ignored st rule: scan_loop.induct)
  case (1 h d ignored st)
  show ?case
  proof (cases "unvisited_paths st = [] \<or> raised st \<noteq> None")
    case True
    then show ?thesis by (simp add: scan_loop_stop)
  next
    case False
    with "1.IH" show ?thesis
      by (auto simp: scan_loop_step scan_directory_fields)
  qed
qed

lemma reachable_log_debug:
  "reachable h d ignored path_root st \<Longrightarrow> logged st = map Debug_looking (visited (logged st))"
proof (induction rule: reachable.induct)
  case start
  show ?case by (simp add: initial_state_def)
next
  case (round st)
  then show ?case by (simp add: scan_directory_fields visited_append)
qed

lemma all_directories_have_tests_Inr:
  assumes "SkippedPathDetecter h path_root cfg = Inr d"
  shows "all_directories_have_tests h path_root cfg ignored =
     (case raised (scan_loop h d ignored (initial_state path_root)) of
        Some e \<Rightarrow> (logged (scan_loop h d ignored (initial_state path_root)), Inl e)
      | None \<Rightarrow>
          if bad_paths (scan_loop h d ignored (initial_state path_root)) \<noteq> [] then
            (logged (scan_loop h d ignored (initial_state path_root)) @
               Error_found_without_tests #
               map (\<lambda>p. Error_bad_path (relpath p path_root))
                 (bad_paths (scan_loop h d ignored (initial_state path_root))),
             Inr False)
          else (logged (scan_loop h d ignored (initial_state path_root)), Inr True))"
  using assms by (simp add: all_directories_have_tests_def Let_def)

lemma all_directories_have_tests_log:
  assumes "SkippedPathDetecter h path_root cfg = Inr d"
  shows "set (fst (all_directories_have_tests h path_root cfg ignored)) \<subseteq>
     Debug_looking ` set (visited (logged (scan_loop h d ignored (initial_state path_root)))) \<union>
     {Error_found_without_tests} \<union>
     (\<lambda>p. Error_bad_path (relpath p path_root)) `
       set (bad_paths (scan_loop h d ignored (initial_state path_root)))"
proof -
  let ?st = "scan_loop h d ignored (initial_state path_root)"
  have "logged ?st = map Debug_looking (visited (logged ?st))"
    by (rule reachable_log_debug [OF reachable_final])
  then have "set (logged ?st) = Debug_looking ` set (visited (logged ?st))"
    by (metis set_map)
  then show ?thesis
    unfolding all_directories_have_tests_Inr [OF assms]
    by (auto split: option.splits)
qed

text \<open>
  Claim C1. At the end of the traversal, and in every state of it, the bad paths are the
  visited directories that lack tests, in the order of the visits: a visited directory is
  appended exactly when some entry of it ends with \<open>.go\<close> and has a full path that no
  file-ignore pattern matches, and no such entry ends with \<open>_test.go\<close>. With no
  file-ignore pattern, the
  listing \<open>x.go\<close> gives a source file and no test, and the listing \<open>x.go\<close>, \<open>x_test.go\<close>
  gives both.
\<close>

theorem bad_paths_iff_lacks_tests:
  "bad_paths (scan_loop h d ignored (initial_state path_root)) =
     filter (lacks_tests h ignored)
       (visited (logged (scan_loop h d ignored (initial_state path_root)))) \<and>
   (\<forall>st. reachable h d ignored path_root st \<longrightarrow>
      bad_paths st = filter (lacks_tests h ignored) (visited (logged st))) \<and>
   found_files cwd [] dir [''x.go''] = (True, False) \<and>
   found_files cwd [] dir [''x.go'', ''x_test.go''] = (True, True)"
proof -
  have "found_files cwd [] dir [''x.go''] = (True, False)"
    by (simp add: found_files_def check_entry_def should_skip_file_def endswith_def
        GO_FILE_SUFFIX_def GO_TEST_FILE_SUFFIX_def suffix_to_prefix)
  moreover have "found_files cwd [] dir [''x.go'', ''x_test.go''] = (True, True)"
    by (simp add: found_files_def check_entry_def should_skip_file_def endswith_def
        GO_FILE_SUFFIX_def GO_TEST_FILE_SUFFIX_def suffix_to_prefix)
  moreover have "bad_paths st = filter (lacks_tests h ignored) (visited (logged st))"
    if "reachable h d ignored path_root st" for st
    using that by (rule reachable_bad_paths)
  ultimately show ?thesis
    using reachable_bad_paths [OF reachable_final, of h d ignored path_root] by simp
qed

text \<open>
  In the example the root and \<open>lib\<close> hold \<open>.go\<close> files and no test and are reported;
  \<open>pkg\<close> holds \<open>x.go\<close> and \<open>x_test.go\<close> and is not.
\<close>

lemma example_run:
  "logged (scan_loop example_host example_detecter [] (initial_state [])) =
     [Debug_looking [], Debug_looking [''lib''], Debug_looking [''pkg'']]"
  by code_simp

theorem bad_paths_iff_lacks_tests_witness:
  "bad_paths (scan_loop example_host example_detecter [] (initial_state [])) = [[], [''lib'']] \<and>
   visited (logged (scan_loop example_host example_detecter [] (initial_state []))) =
     [[], [''lib''], [''pkg'']] \<and>
   listdir (tree example_host) [''lib''] = Inr [''x.go''] \<and>
   listdir (tree example_host) [''pkg''] = Inr [''x.go'', ''x_test.go''] \<and>
   lacks_tests example_host [] [''lib''] \<and>
   \<not> lacks_tests example_host [] [''pkg'']"
proof -
  have "listdir (tree example_host) [''lib''] = Inr [''x.go'']"
    and "listdir (tree example_host) [''pkg''] = Inr [''x.go'', ''x_test.go'']"
    and "lacks_tests example_host [] [''lib'']"
    and "\<not> lacks_tests example_host [] [''pkg'']"
    and "lacks_tests example_host [] []"
    by code_simp+
  then show ?thesis
    using bad_paths_iff_lacks_tests [of example_host example_detecter "[]" "[]"]
    by (simp add: example_run)
qed

text \<open>
  Claim C8. A path whose relative path against the root is one of \<open>.git\<close>, \<open>.gen\<close>,
  \<open>.tmp\<close>, \<open>vendor\<close>, \<open>go-build\<close> is, in every state of the traversal, neither on the
  stack of unvisited paths, nor logged as entered (the script logs a directory before it
  lists it), nor among the bad paths; and the log of \<open>all_directories_have_tests\<close> names
  it neither as entered nor as a package without tests. Nothing is assumed of what the
  directory holds.
\<close>

theorem always_skipped_never_entered:
  assumes "SkippedPathDetecter h path_root cfg = Inr d"
    and "relpath p path_root \<in> {''.git'', ''.gen'', ''.tmp'', ''vendor'', ''go-build''}"
  shows "(\<forall>st. reachable h d ignored path_root st \<longrightarrow>
            p \<notin> set (unvisited_paths st) \<and>
            Debug_looking p \<notin> set (logged st) \<and>
            p \<notin> set (bad_paths st)) \<and>
         Debug_looking p \<notin> set (fst (all_directories_have_tests h path_root cfg ignored)) \<and>
         Error_bad_path (relpath p path_root) \<notin>
           set (fst (all_directories_have_tests h path_root cfg ignored))"
proof -
  have always: "relpath p path_root \<in> set ALWAYS_SKIPPED"
    using assms(2) by (simp add: ALWAYS_SKIPPED_def)
  have root: "d_path_root d = path_root"
    by (rule SkippedPathDetecter_Inr(1) [OF assms(1)])
  have states: "p \<notin> set (unvisited_paths st) \<and> Debug_looking p \<notin> set (logged st) \<and>
      p \<notin> set (bad_paths st)"
    if "reachable h d ignored path_root st" for st
    using reachable_never_always_skipped [OF that root] always
    by (auto simp: visited_set [symmetric])
  let ?st = "scan_loop h d ignored (initial_state path_root)"
  have final: "\<forall>q \<in> set (unvisited_paths ?st) \<union> set (visited (logged ?st)) \<union> set (bad_paths ?st).
      relpath q path_root \<notin> set ALWAYS_SKIPPED"
    by (rule reachable_never_always_skipped [OF reachable_final root])
  have "Debug_looking p \<notin> set (fst (all_directories_have_tests h path_root cfg ignored))"
    using all_directories_have_tests_log [OF assms(1), of ignored] final always by auto
  moreover
  have "Error_bad_path (relpath p path_root) \<notin>
      set (fst (all_directories_have_tests h path_root cfg ignored))"
    using all_directories_have_tests_log [OF assms(1), of ignored] final always by auto
  ultimately show ?thesis using states by blast
qed

text \<open>
  In the example \<open>vendor\<close> is a directory that holds a \<open>.go\<close> file and no test; after the
  first round it is not on the stack, and the run never names it.
\<close>

lemma example_first_round:
  "scan_directory example_host example_detecter [] (initial_state []) =
     \<lparr>unvisited_paths = [[''pkg''], [''lib'']], bad_paths = [[]],
      logged = [Debug_looking []], raised = None\<rparr>"
  by code_simp

lemma example_scan:
  "all_directories_have_tests example_host [] example_config [] =
     ([Debug_looking [], Debug_looking [''lib''], Debug_looking [''pkg''],
       Error_found_without_tests, Error_bad_path ''.'', Error_bad_path ''lib''],
      Inr False)"
  by code_simp

theorem always_skipped_never_entered_witness:
  "relpath [''vendor''] [] = ''vendor'' \<and>
   isdir (tree example_host) [''vendor''] \<and>
   listdir (tree example_host) [''vendor''] = Inr [''v.go''] \<and>
   reachable example_host example_detecter [] []
     (scan_directory example_host example_detecter [] (initial_state [])) \<and>
   unvisited_paths (scan_directory example_host example_detecter [] (initial_state [])) =
     [[''pkg''], [''lib'']] \<and>
   Debug_looking [''vendor''] \<notin>
     set (fst (all_directories_have_tests example_host [] example_config [])) \<and>
   Error_bad_path ''vendor'' \<notin>
     set (fst (all_directories_have_tests example_host [] example_config []))"
proof -
  have name: "relpath [''vendor''] [] = ''vendor''"
    and "isdir (tree example_host) [''vendor'']"
    and "listdir (tree example_host) [''vendor''] = Inr [''v.go'']"
    by code_simp+
  moreover
  have reach: "reachable example_host example_detecter [] []
      (scan_directory example_host example_detecter [] (initial_state []))"
    by (rule reachable.round [OF reachable.start]) (simp_all add: initial_state_def)
  moreover
  have "relpath [''vendor''] [] \<in> {''.git'', ''.gen'', ''.tmp'', ''vendor'', ''go-build''}"
    by (simp add: name)
  note always_skipped_never_entered [OF example_detecter_init this, of "[]"]
  ultimately show ?thesis using reach by (simp add: name example_first_round)
qed

lemma subdirectories_below:
  "q \<in> set (subdirectories t d p es) \<Longrightarrow> prefix p q"
  by (auto simp: subdirectories_def)

lemma reachable_below_root:
  "reachable h d ignored path_root st \<Longrightarrow> p \<in> set (unvisited_paths st) \<Longrightarrow> prefix path_root p"
proof (induction arbitrary: p rule: reachable.induct)
  case start
  then show ?case by (simp add: initial_state_def)
next
  case (round st)
  let ?top = "last (unvisited_paths st)"
  from round.hyps(2) have "?top \<in> set (unvisited_paths st)" by simp
  then have top: "prefix path_root ?top" by (rule round.IH)
  from round.prems consider
      "p \<in> set (butlast (unvisited_paths st))"
    | es where "p \<in> set (subdirectories (tree h) d ?top es)"
    by (cases "listdir (tree h) ?top") (simp_all add: scan_directory_fields(3), blast)
  then show ?case
  proof cases
    case 1
    then have "p \<in> set (unvisited_paths st)" by (rule in_set_butlastD)
    then show ?thesis by (rule round.IH)
  next
    case 2
    then have "prefix ?top p" by (rule subdirectories_below)
    with top show ?thesis by (rule prefix_order.trans)
  qed
qed

lemma entry_path_not_root:
  assumes "reachable h d ignored path_root st" and "unvisited_paths st \<noteq> []"
  shows "last (unvisited_paths st) @ [entry] \<noteq> path_root"
proof
  assume eq: "last (unvisited_paths st) @ [entry] = path_root"
  from assms(2) have "last (unvisited_paths st) \<in> set (unvisited_paths st)" by simp
  with assms(1) have "prefix path_root (last (unvisited_paths st))"
    by (rule reachable_below_root)
  then have "length path_root \<le> length (last (unvisited_paths st))" by (rule prefix_length_le)
  moreover from eq have "length path_root = Suc (length (last (unvisited_paths st)))"
    by (metis length_append_singleton)
  ultimately show False by simp
qed

text \<open>
  Claim C10. Whatever the configuration, the root is the first directory the traversal
  enters. If the root lacks tests it is among the bad paths, the scan does not return
  \<open>True\<close>, and when it returns \<open>False\<close> the root is logged as \<open>.\<close> among the packages
  without tests. The paths \<open>should_skip\<close> is asked about are the directory on top of the
  stack joined with an entry of it, and none of them is the root.
\<close>

theorem root_always_scanned:
  assumes "SkippedPathDetecter h path_root cfg = Inr d"
  shows "logged (scan_loop h d ignored (initial_state path_root)) \<noteq> [] \<and>
     hd (logged (scan_loop h d ignored (initial_state path_root))) = Debug_looking path_root \<and>
     hd (fst (all_directories_have_tests h path_root cfg ignored)) = Debug_looking path_root \<and>
     (lacks_tests h ignored path_root \<longrightarrow>
        path_root \<in> set (bad_paths (scan_loop h d ignored (initial_state path_root))) \<and>
        snd (all_directories_have_tests h path_root cfg ignored) \<noteq> Inr True \<and>
        (snd (all_directories_have_tests h path_root cfg ignored) = Inr False \<longrightarrow>
           Error_bad_path ''.'' \<in> set (fst (all_directories_have_tests h path_root cfg ignored)))) \<and>
     (\<forall>st entry. reachable h d ignored path_root st \<and> unvisited_paths st \<noteq> [] \<longrightarrow>
        last (unvisited_paths st) @ [entry] \<noteq> path_root)"
proof -
  let ?st = "scan_loop h d ignored (initial_state path_root)"
  have tested: "\<forall>st entry. reachable h d ignored path_root st \<and> unvisited_paths st \<noteq> [] \<longrightarrow>
      last (unvisited_paths st) @ [entry] \<noteq> path_root"
    using entry_path_not_root by blast
  let ?st1 = "scan_directory h d ignored (initial_state path_root)"
  have "?st = scan_loop h d ignored ?st1"
    by (rule scan_loop_step) (simp_all add: initial_state_def)
  moreover obtain l b where "logged (scan_loop h d ignored ?st1) = logged ?st1 @ l"
    using scan_loop_extends by blast
  moreover have "logged ?st1 = [Debug_looking path_root]"
    by (simp add: scan_directory_fields initial_state_def)
  ultimately have log: "logged ?st = Debug_looking path_root # l" by simp
  then have first: "logged ?st \<noteq> [] \<and> hd (logged ?st) = Debug_looking path_root" by simp
  have result: "hd (fst (all_directories_have_tests h path_root cfg ignored)) =
      Debug_looking path_root"
    unfolding all_directories_have_tests_Inr [OF assms]
    by (simp add: log split: option.splits)
  have bad: "bad_paths ?st = filter (lacks_tests h ignored) (visited (logged ?st))"
    by (rule reachable_bad_paths [OF reachable_final])
  have reported: "path_root \<in> set (bad_paths ?st) \<and>
      snd (all_directories_have_tests h path_root cfg ignored) \<noteq> Inr True \<and>
      (snd (all_directories_have_tests h path_root cfg ignored) = Inr False \<longrightarrow>
         Error_bad_path ''.'' \<in> set (fst (all_directories_have_tests h path_root cfg ignored)))"
    if "lacks_tests h ignored path_root"
  proof -
    from that have mem: "path_root \<in> set (bad_paths ?st)"
      unfolding bad by (simp add: log)
    then have "Error_bad_path (relpath path_root path_root) \<in>
        (\<lambda>p. Error_bad_path (relpath p path_root)) ` set (bad_paths ?st)"
      by (rule imageI)
    with mem show ?thesis
      unfolding all_directories_have_tests_Inr [OF assms]
      by (auto simp: relpath_self split: option.splits)
  qed
  from first result reported tested show ?thesis by blast
qed

text \<open>
  In the example the configured skipped paths name the root, so \<open>should_skip\<close> holds of
  it; the root is entered and reported all the same.
\<close>

theorem root_always_scanned_witness:
  "should_skip (tree example_host) example_detecter [] \<and>
   lacks_tests example_host [] [] \<and>
   hd (fst (all_directories_have_tests example_host [] example_config [])) = Debug_looking [] \<and>
   [] \<in> set (bad_paths (scan_loop example_host example_detecter [] (initial_state []))) \<and>
   snd (all_directories_have_tests example_host [] example_config []) = Inr False \<and>
   Error_bad_path ''.'' \<in> set (fst (all_directories_have_tests example_host [] example_config []))"
proof -
  have "should_skip (tree example_host) example_detecter []"
    and lacks: "lacks_tests example_host [] []"
    by code_simp+
  moreover have "snd (all_directories_have_tests example_host [] example_config []) = Inr False"
    by (simp add: example_scan)
  ultimately show ?thesis
    using root_always_scanned [OF example_detecter_init, of "[]"] by simp
qed

section \<open>Rounding to a float\<close>























section \<open>The coverage evaluator\<close>

lemma foldl_count_line:
  "foldl count_line counts ls =
     (fst counts + length (filter (\<lambda>line. get line ''hits'' = Some ''0'') ls),
      snd counts + length (filter (\<lambda>line. get line ''hits'' \<noteq> Some ''0'') ls))"
  by (induction ls arbitrary: counts) (auto simp: count_line_def)

lemma foldl_nested:
  "foldl (\<lambda>acc x. foldl f acc (g x)) acc xs = foldl f acc (concat (map g xs))"
  by (induction xs arbitrary: acc) auto

lemma count_lines_method_lines:
  "count_lines report = foldl count_line (0, 0) (method_lines report)"
  by (simp add: count_lines_def method_lines_def foldl_nested)

lemma not_hits_zero:
  "get line ''hits'' \<noteq> Some ''0'' \<longleftrightarrow>
     (case get line ''hits'' of None \<Rightarrow> True | Some v \<Rightarrow> v \<noteq> ''0'')"
  by (simp split: option.splits)

text \<open>
  Claim C9. The scan counts as uncovered the lines it meets whose \<open>hits\<close> attribute is
  the string \<open>0\<close>, and as covered all the others it meets, those without the attribute
  among them: a line without \<open>hits\<close> adds one to the covered lines, as does a line with
  any value other than \<open>0\<close>.
\<close>

theorem missing_hits_counts_as_covered:
  "count_lines report =
     (length (filter (\<lambda>line. get line ''hits'' = Some ''0'') (method_lines report)),
      length (filter (\<lambda>line. case get line ''hits'' of None \<Rightarrow> True | Some v \<Rightarrow> v \<noteq> ''0'')
                (method_lines report))) \<and>
   (get line ''hits'' = None \<longrightarrow> count_line (u, c) line = (u, c + 1)) \<and>
   (get line ''hits'' = Some ''0'' \<longrightarrow> count_line (u, c) line = (u + 1, c)) \<and>
   (\<forall>v. get line ''hits'' = Some v \<and> v \<noteq> ''0'' \<longrightarrow> count_line (u, c) line = (u, c + 1))"
  by (simp add: count_lines_method_lines foldl_count_line not_hits_zero count_line_def)

theorem missing_hits_counts_as_covered_witness:
  "get (example_line None) ''hits'' = None \<and>
   count_line (0, 0) (example_line None) = (0, 1) \<and>
   count_line (0, 0) (example_line (Some ''0'')) = (1, 0) \<and>
   count_line (0, 0) (example_line (Some ''00'')) = (0, 1) \<and>
   count_lines (Element ''class'' []
     [Element ''method'' []
        [example_line None, example_line (Some ''0''), example_line (Some ''7'')]]) = (1, 2)"
proof -
  have "get (example_line None) ''hits'' = None"
    and "get (example_line (Some ''0'')) ''hits'' = Some ''0''"
    and "get (example_line (Some ''00'')) ''hits'' = Some ''00''"
    and "method_lines (Element ''class'' []
     [Element ''method'' []
        [example_line None, example_line (Some ''0''), example_line (Some ''7'')]]) =
      [example_line None, example_line (Some ''0''), example_line (Some ''7'')]"
    and "get (example_line (Some ''7'')) ''hits'' = Some ''7''"
    by code_simp+
  then show ?thesis
    using missing_hits_counts_as_covered [of _ "example_line None" 0 0]
      missing_hits_counts_as_covered [of _ "example_line (Some ''0'')" 0 0]
      missing_hits_counts_as_covered [of _ "example_line (Some ''00'')" 0 0]
      missing_hits_counts_as_covered [of "Element ''class'' []
     [Element ''method'' []
        [example_line None, example_line (Some ''0''), example_line (Some ''7'')]]"]
    by simp
qed

text \<open>
  Claim C4. Without a coverage section \<open>coverage_is_sufficient\<close> returns \<open>True\<close>; with a
  section that has no minimum percentage it returns \<open>False\<close>, whatever the host holds;
  with a threshold and no file \<open>coverage.xml\<close> at the root it returns \<open>False\<close>.
\<close>

theorem coverage_gate_early_results:
  "(coverage cfg = None \<longrightarrow>
      coverage_is_sufficient h path_root cfg = ([Info_skipping_coverage], Inr True)) \<and>
   (\<forall>cov. coverage cfg = Some cov \<and> min_percentage cov = None \<longrightarrow>
      coverage_is_sufficient h path_root cfg = ([Error_no_threshold], Inr False)) \<and>
   (\<forall>cov threshold. coverage cfg = Some cov \<and> min_percentage cov = Some threshold \<and>
      \<not> isfile (tree h) (path_root @ [''coverage.xml'']) \<longrightarrow>
      coverage_is_sufficient h path_root cfg = ([Error_no_report], Inr False))"
  by (simp add: coverage_is_sufficient_def COVERAGE_REPORT_FILE_def)

theorem coverage_gate_early_results_witness:
  "coverage_is_sufficient example_host [] example_config = ([Info_skipping_coverage], Inr True) \<and>
   coverage_is_sufficient (tested_project None (example_report 0 0)) []
     \<lparr>skipped_paths = None, skipped_regex_paths = None, coverage = Some \<lparr>min_percentage = None\<rparr>\<rparr>
     = ([Error_no_threshold], Inr False) \<and>
   lookup (tree example_host) [''coverage.xml''] = None \<and>
   coverage_is_sufficient example_host [] (threshold_config (JInt 50)) = ([Error_no_report], Inr False)"
proof -
  have "coverage example_config = None"
    and "coverage \<lparr>skipped_paths = None, skipped_regex_paths = None,
           coverage = Some \<lparr>min_percentage = None\<rparr>\<rparr> = Some \<lparr>min_percentage = None\<rparr>"
    and "coverage (threshold_config (JInt 50)) = Some \<lparr>min_percentage = Some (JInt 50)\<rparr>"
    and "lookup (tree example_host) [''coverage.xml''] = None"
    and "\<not> isfile (tree example_host) ([] @ [''coverage.xml''])"
    by code_simp+
  then show ?thesis
    using coverage_gate_early_results [of example_config example_host "[]"]
      coverage_gate_early_results [of "\<lparr>skipped_paths = None, skipped_regex_paths = None,
           coverage = Some \<lparr>min_percentage = None\<rparr>\<rparr>" "tested_project None (example_report 0 0)" "[]"]
      coverage_gate_early_results [of "threshold_config (JInt 50)" example_host "[]"]
    by simp
qed

lemma isfile_File: "stat t p = Some (File j x) \<Longrightarrow> isfile t p"
  by (simp add: isfile_def)








text \<open>
  Claim C3 asks that a report with no lines be no division by zero. The script divides:
  on a report whose scan finds no line, with a threshold configured,
  \<open>coverage_is_sufficient\<close> raises \<open>ZeroDivisionError\<close> before it logs anything.
\<close>

theorem empty_report_divides_by_zero:
  "count_lines (example_report 0 0) = (0, 0) \<and>
   coverage_is_sufficient (tested_project None (example_report 0 0)) [] (threshold_config (JInt 50)) =
     ([], Inl ZeroDivisionError)"
  by code_simp

section \<open>The orchestrator\<close>

text \<open>
  Claim C5. Without a configuration file at the root, \<open>main\<close> returns 0 and its log is the
  one hint to create the file: no directory is entered, no coverage is computed. With a
  configuration file that \<open>json.load\<close> cannot parse, \<open>main\<close> returns 1.
\<close>

theorem main_without_config:
  "(\<not> isfile (tree h) [''.golang_coverage_lintrc.json''] \<longrightarrow>
      main h a = ([Info_create_config], Inr 0)) \<and>
   (\<forall>x. stat (tree h) [''.golang_coverage_lintrc.json''] = Some (File None x) \<longrightarrow>
      main h a = ([Error_parse_config], Inr 1))"
  by (auto simp: main_def CONFIG_FILE_NAME_def load_config_file_def isfile_def)

text \<open>
  The example project has no configuration file, and a root that lacks tests: \<open>main\<close>
  returns 0 all the same.
\<close>

theorem main_without_config_witness:
  "lacks_tests example_host [] [] \<and>
   main example_host no_arguments = ([Info_create_config], Inr 0) \<and>
   main (tested_project None (example_report 80 20)) no_arguments = ([Error_parse_config], Inr 1)"
proof -
  have "lacks_tests example_host [] []"
    and "\<not> isfile (tree example_host) [''.golang_coverage_lintrc.json'']"
    and "stat (tree (tested_project None (example_report 80 20)))
      [''.golang_coverage_lintrc.json''] = Some (File None None)"
    by code_simp+
  then show ?thesis
    using main_without_config [of example_host no_arguments]
      main_without_config [of "tested_project None (example_report 80 20)" no_arguments]
    by simp
qed

lemma main_with_config:
  assumes "stat (tree h) [''.golang_coverage_lintrc.json''] = Some (File (Some cfg) x)"
    and "compile_all (re_compile h)
           (case cover_ignore_srcs a of None \<Rightarrow> [] | Some srcs \<Rightarrow> str_split (str_strip srcs))
         = Inr ignored"
  shows "main h a =
     (case all_directories_have_tests h [] cfg ignored of
        (log1, Inl e) \<Rightarrow> (log1, Inl e)
      | (log1, Inr False) \<Rightarrow> (log1, Inr 1)
      | (log1, Inr True) \<Rightarrow>
         (case coverage_is_sufficient h [] cfg of
            (log2, Inl e) \<Rightarrow> (log1 @ log2, Inl e)
          | (log2, Inr False) \<Rightarrow> (log1 @ log2, Inr 1)
          | (log2, Inr True) \<Rightarrow> (log1 @ log2, Inr 0)))"
  using assms isfile_File [OF assms(1)]
  by (simp add: main_def CONFIG_FILE_NAME_def load_config_file_def)

lemma scan_log_not_from_coverage_gate:
  assumes "snd (all_directories_have_tests h path_root cfg ignored) = Inr b"
    and "r \<in> set (fst (all_directories_have_tests h path_root cfg ignored))"
  shows "\<not> from_coverage_gate r"
proof (cases "SkippedPathDetecter h path_root cfg")
  case (Inl e)
  with assms(1) show ?thesis by (simp add: all_directories_have_tests_def)
next
  case (Inr d)
  from all_directories_have_tests_log [OF Inr, of ignored] assms(2) show ?thesis by auto
qed

text \<open>
  Claim C6. With a configuration that parses, and file-ignore patterns that compile,
  \<open>main\<close> runs the scan of the packages first. When the scan returns \<open>False\<close>, \<open>main\<close>
  returns 1 with the log of the scan alone: no record of the coverage gate is logged,
  whatever that gate would have done. When the scan returns \<open>True\<close>, \<open>main\<close> runs the
  coverage gate and returns 0 or 1 as it returns \<open>True\<close> or \<open>False\<close>. So \<open>main\<close>
  returns 0 exactly when both gates return \<open>True\<close>.
\<close>

theorem gates_in_order:
  assumes "stat (tree h) [''.golang_coverage_lintrc.json''] = Some (File (Some cfg) x)"
    and "compile_all (re_compile h)
           (case cover_ignore_srcs a of None \<Rightarrow> [] | Some srcs \<Rightarrow> str_split (str_strip srcs))
         = Inr ignored"
  shows "(snd (all_directories_have_tests h [] cfg ignored) = Inr False \<longrightarrow>
            main h a = (fst (all_directories_have_tests h [] cfg ignored), Inr 1) \<and>
            (\<forall>r \<in> set (fst (main h a)). \<not> from_coverage_gate r)) \<and>
         (snd (all_directories_have_tests h [] cfg ignored) = Inr True \<longrightarrow>
            main h a =
              (fst (all_directories_have_tests h [] cfg ignored) @
                 fst (coverage_is_sufficient h [] cfg),
               case snd (coverage_is_sufficient h [] cfg) of
                 Inl e \<Rightarrow> Inl e
               | Inr sufficient \<Rightarrow> Inr (if sufficient then 0 else 1))) \<and>
         (snd (main h a) = Inr 0 \<longleftrightarrow>
            snd (all_directories_have_tests h [] cfg ignored) = Inr True \<and>
            snd (coverage_is_sufficient h [] cfg) = Inr True) \<and>
         (snd (main h a) = Inr 1 \<longleftrightarrow>
            snd (all_directories_have_tests h [] cfg ignored) = Inr False \<or>
            snd (all_directories_have_tests h [] cfg ignored) = Inr True \<and>
            snd (coverage_is_sufficient h [] cfg) = Inr False)"
proof -
  obtain log1 r1 where scan: "all_directories_have_tests h [] cfg ignored = (log1, r1)"
    by (cases "all_directories_have_tests h [] cfg ignored")
  obtain log2 r2 where cover: "coverage_is_sufficient h [] cfg = (log2, r2)"
    by (cases "coverage_is_sufficient h [] cfg")
  note main = main_with_config [OF assms, unfolded scan cover]
  have failed: "main h a = (log1, Inr 1) \<and> (\<forall>r \<in> set (fst (main h a)). \<not> from_coverage_gate r)"
    if "r1 = Inr False"
  proof -
    from that have m: "main h a = (log1, Inr 1)" by (simp add: main)
    moreover have "\<not> from_coverage_gate r" if "r \<in> set log1" for r
      using scan_log_not_from_coverage_gate [of h "[]" cfg ignored False r] scan \<open>r1 = Inr False\<close> that
      by simp
    ultimately show ?thesis by simp
  qed
  have passed: "main h a =
      (log1 @ log2, case r2 of Inl e \<Rightarrow> Inl e | Inr sufficient \<Rightarrow> Inr (if sufficient then 0 else 1))"
    if "r1 = Inr True"
    using that by (simp add: main split: sum.splits bool.splits)
  have zero: "snd (main h a) = Inr 0 \<longleftrightarrow> r1 = Inr True \<and> r2 = Inr True"
    by (auto simp: main split: sum.splits bool.splits)
  have one: "snd (main h a) = Inr 1 \<longleftrightarrow> r1 = Inr False \<or> r1 = Inr True \<and> r2 = Inr False"
    by (auto simp: main split: sum.splits bool.splits)
  from failed passed zero one show ?thesis
    unfolding scan cover by simp
qed

text \<open>
  A project with a package without tests and an empty report, on which the coverage
  gate would raise: \<open>main\<close> returns 1 after the scan. A project with tests and a report
  of 80 lines covered in 100: \<open>main\<close> returns 0 with the threshold 80 and 1 with 80.1.
\<close>

theorem gates_in_order_witness:
  "snd (coverage_is_sufficient
     (untested_project (Some (threshold_config (JInt 50))) (example_report 0 0)) []
     (threshold_config (JInt 50))) = Inl ZeroDivisionError \<and>
   main (untested_project (Some (threshold_config (JInt 50))) (example_report 0 0)) no_arguments =
     ([Debug_looking [], Debug_looking [''lib''], Error_found_without_tests,
       Error_bad_path ''lib''], Inr 1) \<and>
   main (tested_project (Some (threshold_config (JFloat (Finite 80)))) (example_report 80 20)) no_arguments =
     ([Debug_looking [], Debug_looking [''pkg''], Info_calculated 80 100 (Finite 80)], Inr 0) \<and>
   snd (main (tested_project (Some (threshold_config (JFloat (Finite (float_of (801 / 10)))))) (example_report 80 20))
     no_arguments) = Inr 1"
proof -
  let ?U = "untested_project (Some (threshold_config (JInt 50))) (example_report 0 0)"
  let ?A = "tested_project (Some (threshold_config (JFloat (Finite 80)))) (example_report 80 20)"
  let ?B = "tested_project (Some (threshold_config (JFloat (Finite (float_of (801 / 10)))))) (example_report 80 20)"
  have patterns: "compile_all (re_compile h)
      (case cover_ignore_srcs no_arguments of None \<Rightarrow> []
       | Some srcs \<Rightarrow> str_split (str_strip srcs)) = Inr []" for h
    by (simp add: no_arguments_def)
  have config:
    "stat (tree ?U) [''.golang_coverage_lintrc.json''] = Some (File (Some (threshold_config (JInt 50))) None)"
    "stat (tree ?A) [''.golang_coverage_lintrc.json''] = Some (File (Some (threshold_config (JFloat (Finite 80)))) None)"
    "stat (tree ?B) [''.golang_coverage_lintrc.json''] =
       Some (File (Some (threshold_config (JFloat (Finite (float_of (801 / 10)))))) None)"
    by (simp_all add: untested_project_def tested_project_def stat_def)
  have scan_U: "all_directories_have_tests ?U [] (threshold_config (JInt 50)) [] =
      ([Debug_looking [], Debug_looking [''lib''], Error_found_without_tests,
        Error_bad_path ''lib''], Inr False)"
    by code_simp
  have cover_U: "snd (coverage_is_sufficient ?U [] (threshold_config (JInt 50))) = Inl ZeroDivisionError"
    by code_simp
  have scan_A: "all_directories_have_tests ?A [] (threshold_config (JFloat (Finite 80))) [] =
      ([Debug_looking [], Debug_looking [''pkg'']], Inr True)"
    by code_simp
  have cover_A: "coverage_is_sufficient ?A [] (threshold_config (JFloat (Finite 80))) =
      ([Info_calculated 80 100 (Finite 80)], Inr True)"
    by code_simp
  have scan_B: "snd (all_directories_have_tests ?B [] (threshold_config (JFloat (Finite (float_of (801 / 10))))) []) = Inr True"
    by code_simp
  have cover_B: "snd (coverage_is_sufficient ?B [] (threshold_config (JFloat (Finite (float_of (801 / 10)))))) = Inr False"
    by code_simp
  from gates_in_order [OF config(1) patterns] scan_U
  have "main ?U no_arguments =
     ([Debug_looking [], Debug_looking [''lib''], Error_found_without_tests,
       Error_bad_path ''lib''], Inr 1)"
    by simp
  moreover from gates_in_order [OF config(2) patterns] scan_A cover_A
  have "main ?A no_arguments =
     ([Debug_looking [], Debug_looking [''pkg''], Info_calculated 80 100 (Finite 80)], Inr 0)"
    by simp
  moreover from gates_in_order [OF config(3) patterns] scan_B cover_B
  have "snd (main ?B no_arguments) = Inr 1"
    by simp
  ultimately show ?thesis using cover_U by simp
qed

end
